theory Spec2Isabelle
  imports Complex_Main
begin

section \<open>The routing kernel of pyDeltaRCM: \<open>shared_tools.py\<close>\<close>

text \<open>
  The functions of \<open>src/pyDeltaRCM/shared_tools.py\<close> that route a parcel: the direction
  tables, the index transforms, the weight surfaces, the weight resolution at a cell, the
  weighted sampler and the step resolver. Each definition below follows one function of
  that file, statement by statement.
\<close>

subsection \<open>Errors\<close>

text \<open>
  \<open>IndexError\<close> is what the source raises itself (and what NumPy raises for an index
  outside an array); \<open>ZeroDivisionError\<close> is what \<open>//\<close> and \<open>%\<close> raise on a zero divisor.
\<close>

datatype error = IndexError | ZeroDivisionError

subsection \<open>Float values\<close>

text \<open>
  The kernel marks excluded directions with NaN and divides by the zero distance of the
  self-direction, so the special values of a NumPy \<open>float64\<close> are part of its control
  flow. A float is NaN, an infinity, or a finite number. Finite arithmetic is exact
  (rounding, overflow and the sign of zero are not modelled; a zero divisor counts as
  \<open>+0.0\<close>, which is what \<open>np.sqrt\<close> and the sums of the kernel produce).
\<close>

datatype fl = NaN | PInf | NInf | Fin real

fun isnan :: "fl \<Rightarrow> bool" where
  "isnan NaN = True"
| "isnan PInf = False"
| "isnan NInf = False"
| "isnan (Fin x) = False"

text \<open>\<open>a + b\<close>: NaN propagates, and \<open>inf + (-inf)\<close> is NaN.\<close>

fun fadd :: "fl \<Rightarrow> fl \<Rightarrow> fl" where
  "fadd (Fin x) (Fin y) = Fin (x + y)"
| "fadd NaN b = NaN"
| "fadd a NaN = NaN"
| "fadd PInf NInf = NaN"
| "fadd NInf PInf = NaN"
| "fadd PInf b = PInf"
| "fadd a PInf = PInf"
| "fadd NInf b = NInf"
| "fadd a NInf = NInf"

text \<open>\<open>a * b\<close>: NaN propagates, and \<open>inf * 0\<close> is NaN.\<close>

fun fmul :: "fl \<Rightarrow> fl \<Rightarrow> fl" where
  "fmul (Fin x) (Fin y) = Fin (x * y)"
| "fmul NaN b = NaN"
| "fmul a NaN = NaN"
| "fmul PInf PInf = PInf"
| "fmul PInf NInf = NInf"
| "fmul NInf PInf = NInf"
| "fmul NInf NInf = PInf"
| "fmul PInf (Fin y) = (if y = 0 then NaN else if 0 < y then PInf else NInf)"
| "fmul NInf (Fin y) = (if y = 0 then NaN else if 0 < y then NInf else PInf)"
| "fmul (Fin x) PInf = (if x = 0 then NaN else if 0 < x then PInf else NInf)"
| "fmul (Fin x) NInf = (if x = 0 then NaN else if 0 < x then NInf else PInf)"

text \<open>
  \<open>a / b\<close> on arrays follows NumPy's error model (also under \<open>@njit\<close>, where array
  expressions are compiled with it): a zero divisor raises nothing, \<open>0 / 0\<close> is NaN and
  \<open>x / 0\<close> is an infinity with the sign of \<open>x\<close>.
\<close>

fun fdiv :: "fl \<Rightarrow> fl \<Rightarrow> fl" where
  "fdiv (Fin x) (Fin y) =
     (if y = 0 then (if x = 0 then NaN else if 0 < x then PInf else NInf) else Fin (x / y))"
| "fdiv NaN b = NaN"
| "fdiv a NaN = NaN"
| "fdiv (Fin x) PInf = Fin 0"
| "fdiv (Fin x) NInf = Fin 0"
| "fdiv PInf (Fin y) = (if 0 \<le> y then PInf else NInf)"
| "fdiv NInf (Fin y) = (if 0 \<le> y then NInf else PInf)"
| "fdiv PInf PInf = NaN"
| "fdiv PInf NInf = NaN"
| "fdiv NInf PInf = NaN"
| "fdiv NInf NInf = NaN"

text \<open>\<open>a < b\<close>: false as soon as one side is NaN.\<close>

fun flt :: "fl \<Rightarrow> fl \<Rightarrow> bool" where
  "flt (Fin x) (Fin y) = (x < y)"
| "flt NaN b = False"
| "flt a NaN = False"
| "flt PInf b = False"
| "flt a NInf = False"
| "flt NInf b = True"
| "flt a PInf = True"

text \<open>\<open>np.maximum(a, b)\<close>: the larger one, and NaN as soon as one side is NaN.\<close>

definition fmaximum :: "fl \<Rightarrow> fl \<Rightarrow> fl" where
  "fmaximum a b = (if isnan a then NaN else if isnan b then NaN else if flt a b then b else a)"

text \<open>
  \<open>x ** t\<close> for a finite base and a finite exponent, as C's \<open>pow\<close> gives it: a negative
  base has a power only for an integral exponent, and \<open>0 ** t\<close> is \<open>1\<close>, \<open>0\<close> or \<open>inf\<close>
  for \<open>t\<close> zero, positive or negative.
\<close>

definition fpow :: "real \<Rightarrow> real \<Rightarrow> fl" where
  "fpow x t =
     (if 0 < x then Fin (x powr t)
      else if x = 0 then (if t = 0 then Fin 1 else if 0 < t then Fin 0 else PInf)
      else if t = of_int \<lfloor>t\<rfloor>
        then Fin ((if even \<lfloor>t\<rfloor> then 1 else - 1) * ((- x) powr t))
        else NaN)"

text \<open>\<open>np.sum\<close>: the entries added up from the left.\<close>

definition fsum :: "fl list \<Rightarrow> fl" where
  "fsum w = foldl fadd (Fin 0) w"

text \<open>\<open>np.nansum\<close>: every NaN is replaced by \<open>0\<close>, then the entries are summed.\<close>

definition nansum :: "fl list \<Rightarrow> fl" where
  "nansum w = fsum (map (\<lambda>x. if isnan x then Fin 0 else x) w)"

text \<open>\<open>a[mask] = v\<close>: the entries under a true mask entry are replaced by \<open>v\<close>.\<close>

definition mask_set :: "bool list \<Rightarrow> 'a \<Rightarrow> 'a list \<Rightarrow> 'a list" where
  "mask_set bs v a = map2 (\<lambda>b x. if b then v else x) bs a"

subsection \<open>Direction tables\<close>

text \<open>\<open>get_iwalk\<close> and \<open>get_jwalk\<close>: the 3 by 3 tables of column and row offsets.\<close>

definition get_iwalk :: "int list list" where
  "get_iwalk = [[- 1, 0, 1],
                [- 1, 0, 1],
                [- 1, 0, 1]]"

definition get_jwalk :: "int list list" where
  "get_jwalk = [[- 1, - 1, - 1],
                [0, 0, 0],
                [1, 1, 1]]"

text \<open>\<open>a.flatten()\<close>: the rows one after the other; the flat index of the centre is 4.\<close>

definition flatten :: "'a list list \<Rightarrow> 'a list" where
  "flatten a = concat a"

subsection \<open>Random stream\<close>

text \<open>
  The process-wide generator behind \<open>np.random.uniform\<close>: the sequence of values it
  will hand out (fixed by the seed) and how many of them have been drawn.
\<close>

record rng =
  draws :: "nat \<Rightarrow> real"
  pos :: nat

text \<open>\<open>get_random_uniform(N)\<close>: one draw, whatever \<open>N\<close> is.\<close>

definition get_random_uniform :: "int \<Rightarrow> rng \<Rightarrow> real \<times> rng" where
  "get_random_uniform N g = (draws g (pos g), g\<lparr>pos := Suc (pos g)\<rparr>)"

subsection \<open>Step resolver\<close>

text \<open>
  \<open>get_steps(new_cells, iwalk, jwalk)\<close>, called with the flattened tables and an array of
  direction indices. A direction index outside the tables is an \<open>IndexError\<close> (under
  \<open>@njit\<close> the read is unchecked).
\<close>

definition get_steps ::
  "nat list \<Rightarrow> int list \<Rightarrow> int list \<Rightarrow> error + (real list \<times> int list \<times> int list \<times> bool list)" where
  "get_steps new_cells iwalk jwalk =
     (if list_all (\<lambda>c. c < length iwalk \<and> c < length jwalk) new_cells
      then
        (let istep = map (\<lambda>c. iwalk ! c) new_cells;
             jstep = map (\<lambda>c. jwalk ! c) new_cells;
             dist = map2 (\<lambda>i j. sqrt (real_of_int (i * i + j * j))) istep jstep;
             astep = map (\<lambda>d. d \<noteq> 0) dist
         in Inr (dist, istep, jstep, astep))
      else Inl IndexError)"

subsection \<open>Weighted sampler\<close>

text \<open>\<open>np.cumsum\<close>: the running sums, from the left.\<close>

fun cumsum_from :: "fl \<Rightarrow> fl list \<Rightarrow> fl list" where
  "cumsum_from acc [] = []"
| "cumsum_from acc (x # xs) = fadd acc x # cumsum_from (fadd acc x) xs"

definition cumsum :: "fl list \<Rightarrow> fl list" where
  "cumsum xs = cumsum_from (Fin 0) xs"

text \<open>
  \<open>np.searchsorted(a, v)\<close> with the default \<open>side='left'\<close>: a bisection that moves up
  while \<open>a[mid] < v\<close>. It reads \<open>a\<close> only below \<open>hi\<close>, and answers \<open>len(a)\<close> when
  every entry is below \<open>v\<close>.
\<close>

function bisect_left :: "fl list \<Rightarrow> fl \<Rightarrow> nat \<Rightarrow> nat \<Rightarrow> nat" where
  "bisect_left a v lo hi =
     (if lo < hi
      then (if flt (a ! ((lo + hi) div 2)) v
            then bisect_left a v (Suc ((lo + hi) div 2)) hi
            else bisect_left a v lo ((lo + hi) div 2))
      else lo)"
  by pat_completeness auto
termination
  by (relation "measure (\<lambda>(a, v, lo, hi). hi - lo)") auto

declare bisect_left.simps [simp del]

definition searchsorted :: "fl list \<Rightarrow> fl \<Rightarrow> nat" where
  "searchsorted a v = bisect_left a v 0 (length a)"

text \<open>
  \<open>random_pick(prob)\<close>: one draw, the cumulative sums, the bisection, and the lookup of
  the answer in \<open>np.arange(len(prob))\<close>. The lookup is outside the array when the
  bisection answers \<open>len(prob)\<close>: an \<open>IndexError\<close> (under \<open>@njit\<close> the read is
  unchecked).
\<close>

definition random_pick :: "fl list \<Rightarrow> rng \<Rightarrow> (error + nat) \<times> rng" where
  "random_pick prob g =
     (let (u, g') = get_random_uniform 1 g;
          arr = [0..<length prob];
          k = searchsorted (cumsum prob) (Fin u)
      in (if k < length arr then Inr (arr ! k) else Inl IndexError, g'))"

subsection \<open>Index transforms\<close>

text \<open>
  \<open>custom_unravel(i, shape)\<close> and \<open>custom_ravel(tup, shape)\<close> on Python integers; \<open>//\<close>
  and \<open>%\<close> round towards minus infinity, as \<open>div\<close> and \<open>mod\<close> on \<open>int\<close> do.
\<close>

definition custom_unravel :: "int \<Rightarrow> int \<times> int \<Rightarrow> error + (int \<times> int)" where
  "custom_unravel i shape =
     (if i > snd shape * fst shape then Inl IndexError
      else if snd shape = 0 then Inl ZeroDivisionError
      else Inr (i div snd shape, i mod snd shape))"

definition custom_ravel :: "int \<times> int \<Rightarrow> int \<times> int \<Rightarrow> error + int" where
  "custom_ravel tup shape =
     (if fst tup > fst shape \<or> snd tup > snd shape then Inl IndexError
      else Inr (fst tup * snd shape + snd tup))"

subsection \<open>Weight surfaces\<close>

text \<open>
  \<open>get_weight_sfc_int\<close>: both surfaces are array expressions, one entry per direction;
  the stage and discharge samples, the unit vectors and the distances are finite floats.
\<close>

definition get_weight_sfc_int ::
  "real \<Rightarrow> real list \<Rightarrow> real \<Rightarrow> real \<Rightarrow> real list \<Rightarrow> real list \<Rightarrow> real list \<Rightarrow> fl list \<times> fl list" where
  "get_weight_sfc_int stage stage_nbrs qx qy ivec jvec distances =
     (let weight_sfc =
            map2 (\<lambda>s d. fmaximum (Fin 0) (fdiv (Fin (stage - s)) (Fin d))) stage_nbrs distances;
          weight_int =
            map2 (\<lambda>(j, i) d. fmaximum (Fin 0) (fdiv (Fin (qx * j + qy * i)) (Fin d)))
              (zip jvec ivec) distances
      in (weight_sfc, weight_int))"

subsection \<open>Weight at a cell\<close>

text \<open>Lines 112 to 114: on the first row, the first three entries of a surface become NaN.\<close>

definition first_row :: "int \<times> int \<Rightarrow> fl list \<Rightarrow> fl list" where
  "first_row ind w = (if fst ind = 0 then replicate (min 3 (length w)) NaN @ drop 3 w else w)"

text \<open>Line 116: the mask of dry cells and walls.\<close>

definition drywall :: "real list \<Rightarrow> int list \<Rightarrow> real \<Rightarrow> bool list" where
  "drywall depth_nbrs ct_nbrs dry_depth = map2 (\<lambda>d c. d \<le> dry_depth \<or> c = - 2) depth_nbrs ct_nbrs"

text \<open>Lines 120 to 124: a surface is divided by its \<open>nansum\<close> when that is positive.\<close>

definition normalize_surface :: "fl list \<Rightarrow> fl list" where
  "normalize_surface w = (if flt (Fin 0) (nansum w) then map (\<lambda>x. fdiv x (nansum w)) w else w)"

text \<open>
  Lines 112 to 128: the masked and normalized surfaces are blended, multiplied by
  \<open>depth_nbrs ** theta\<close>, and the entries of the dry cells are set to \<open>0\<close>.
\<close>

definition blended_weight ::
  "int \<times> int \<Rightarrow> fl list \<Rightarrow> fl list \<Rightarrow> real list \<Rightarrow> int list \<Rightarrow> real \<Rightarrow> real \<Rightarrow> real \<Rightarrow> fl list" where
  "blended_weight ind weight_sfc weight_int depth_nbrs ct_nbrs dry_depth gamma theta =
     (let dw = drywall depth_nbrs ct_nbrs dry_depth;
          sfc = normalize_surface (mask_set dw NaN (first_row ind weight_sfc));
          itl = normalize_surface (mask_set dw NaN (first_row ind weight_int));
          weight = map2 (\<lambda>a b. fadd (fmul (Fin gamma) a) (fmul (Fin (1 - gamma)) b)) sfc itl;
          weight = map2 (\<lambda>d x. fmul (fpow d theta) x) depth_nbrs weight
      in mask_set (map (\<lambda>d. d \<le> dry_depth) depth_nbrs) (Fin 0) weight)"

text \<open>
  Lines 130 to 138: when an entry that is not NaN is not zero, the vector is divided by
  its \<open>nansum\<close>; otherwise every entry that is not NaN becomes one over their number. The
  entries that were NaN become \<open>0\<close> in both branches.
\<close>

definition resolve_weight :: "fl list \<Rightarrow> fl list" where
  "resolve_weight weight =
     (let nanWeight = map isnan weight in
      if list_ex (\<lambda>x. \<not> isnan x \<and> x \<noteq> Fin 0) weight
      then mask_set nanWeight (Fin 0) (map (\<lambda>x. fdiv x (nansum weight)) weight)
      else mask_set nanWeight (Fin 0)
             (mask_set (map Not nanWeight)
                (Fin (1 / real (max 1 (length (filter Not nanWeight))))) weight))"

definition get_weight_at_cell ::
  "int \<times> int \<Rightarrow> fl list \<Rightarrow> fl list \<Rightarrow> real list \<Rightarrow> int list \<Rightarrow> real \<Rightarrow> real \<Rightarrow> real \<Rightarrow> fl list" where
  "get_weight_at_cell ind weight_sfc weight_int depth_nbrs ct_nbrs dry_depth gamma theta =
     resolve_weight
       (blended_weight ind weight_sfc weight_int depth_nbrs ct_nbrs dry_depth gamma theta)"

subsection \<open>The values of a weight\<close>

text \<open>
  What an entry of a raw weight surface can be: \<open>get_weight_sfc_int\<close> floors its
  quotients at zero, so an entry is a finite number that is not negative, or NaN (from
  \<open>0 / 0\<close>), or \<open>+inf\<close> (from \<open>x / 0\<close> with \<open>x\<close> positive).
\<close>

fun raw_weight :: "fl \<Rightarrow> bool" where
  "raw_weight NaN = True"
| "raw_weight PInf = True"
| "raw_weight NInf = False"
| "raw_weight (Fin x) = (0 \<le> x)"

text \<open>A weight after normalization: a finite number that is not negative, or NaN.\<close>

fun nonneg_or_nan :: "fl \<Rightarrow> bool" where
  "nonneg_or_nan NaN = True"
| "nonneg_or_nan PInf = False"
| "nonneg_or_nan NInf = False"
| "nonneg_or_nan (Fin x) = (0 \<le> x)"

text \<open>The number a finite float stands for (and \<open>0\<close> for the others).\<close>

fun fin_val :: "fl \<Rightarrow> real" where
  "fin_val (Fin x) = x"
| "fin_val NaN = 0"
| "fin_val PInf = 0"
| "fin_val NInf = 0"

section \<open>Index transforms: round trip and bounds\<close>

lemma custom_ravel_value:
  "row \<le> m \<Longrightarrow> col \<le> n \<Longrightarrow> custom_ravel (row, col) (m, n) = Inr (row * n + col)"
  by (simp add: custom_ravel_def)

lemma ravel_div:
  fixes row col n :: int
  assumes "0 \<le> col" "col < n"
  shows "(row * n + col) div n = row"
  using assms by simp

lemma ravel_mod:
  fixes row col n :: int
  assumes "0 \<le> col" "col < n"
  shows "(row * n + col) mod n = col"
  using assms by simp

lemma ravel_below:
  fixes row col m n :: int
  assumes "0 \<le> row" "row < m" "0 \<le> col" "col < n"
  shows "row * n + col < m * n"
proof -
  have "row + 1 \<le> m" using assms by simp
  then have "(row + 1) * n \<le> m * n"
    using assms by (intro mult_right_mono) auto
  then show ?thesis using assms by (simp add: algebra_simps)
qed

text \<open>
  C7. For every shape \<open>(m, n)\<close> and every coordinate pair with \<open>0 \<le> row < m\<close> and
  \<open>0 \<le> col < n\<close>, \<open>custom_ravel\<close> returns a flat index that \<open>custom_unravel\<close> maps back
  to \<open>(row, col)\<close>: neither call raises, and the round trip is the identity.
\<close>

theorem custom_unravel_ravel_roundtrip:
  assumes "0 \<le> row" "row < m" "0 \<le> col" "col < n"
  shows "(case custom_ravel (row, col) (m, n) of
            Inl e \<Rightarrow> Inl e
          | Inr i \<Rightarrow> custom_unravel i (m, n)) = Inr (row, col)"
proof -
  have r: "custom_ravel (row, col) (m, n) = Inr (row * n + col)"
    using assms by (simp add: custom_ravel_value)
  have b: "\<not> row * n + col > n * m"
    using ravel_below [OF assms] by (simp add: mult.commute)
  have "custom_unravel (row * n + col) (m, n) = Inr (row, col)"
    using assms b ravel_div [of col n row] ravel_mod [of col n row]
    by (simp add: custom_unravel_def)
  with r show ?thesis by simp
qed

theorem custom_unravel_ravel_roundtrip_witness:
  "(0::int) \<le> 3 \<and> (3::int) < 5 \<and> (0::int) \<le> 4 \<and> (4::int) < 5
   \<and> custom_ravel (3, 4) (5, 5) = Inr 19
   \<and> (case custom_ravel (3, 4) (5, 5) of
         Inl e \<Rightarrow> Inl e
       | Inr i \<Rightarrow> custom_unravel i (5, 5)) = Inr (3, 4)"
  using custom_unravel_ravel_roundtrip [of 3 5 4 5]
  by (simp add: custom_ravel_def)

text \<open>
  C8. The bounds checks compare with \<open>>\<close>: the flat index \<open>shape[0] * shape[1]\<close>, the row
  \<open>shape[0]\<close>, the column \<open>shape[1]\<close> and every negative input pass them, and the
  functions return a value instead of raising \<open>IndexError\<close>. On the shape \<open>(2, 3)\<close>:
  the flat index \<open>6\<close> unravels to row \<open>2\<close>, the flat index \<open>-1\<close> to \<open>(-1, 2)\<close>, the
  coordinates \<open>(2, 0)\<close> ravel to \<open>6\<close>, \<open>(0, 3)\<close> to \<open>3\<close> (the index of \<open>(1, 0)\<close>) and
  \<open>(-1, 0)\<close> to \<open>-3\<close>.
\<close>

theorem bounds_checks_miss_the_edge:
  "custom_unravel 6 (2, 3) = Inr (2, 0)
   \<and> custom_unravel (- 1) (2, 3) = Inr (- 1, 2)
   \<and> custom_ravel (2, 0) (2, 3) = Inr 6
   \<and> custom_ravel (0, 3) (2, 3) = Inr 3
   \<and> custom_ravel (- 1, 0) (2, 3) = Inr (- 3)"
  by (simp add: custom_unravel_def custom_ravel_def)

section \<open>Step resolver: the nine directions\<close>

lemma flatten_iwalk: "flatten get_iwalk = [- 1, 0, 1, - 1, 0, 1, - 1, 0, 1]"
  by (simp add: flatten_def get_iwalk_def)

lemma flatten_jwalk: "flatten get_jwalk = [- 1, - 1, - 1, 0, 0, 0, 1, 1, 1]"
  by (simp add: flatten_def get_jwalk_def)

text \<open>
  C9. On the flattened direction tables, \<open>get_steps\<close> at the self-direction (flat index
  4) returns distance \<open>0\<close>, both offsets \<open>0\<close> and \<open>astep = False\<close>. At each of the
  other eight indices it returns \<open>astep = True\<close>; the distance is \<open>1\<close> where exactly
  one offset is zero (the orthogonal directions 1, 3, 5, 7) and \<open>sqrt 2\<close> where none is
  (the diagonal directions 0, 2, 6, 8). The square root is the exact one.
\<close>

theorem get_steps_directions:
  "get_steps [0, 1, 2, 3, 4, 5, 6, 7, 8] (flatten get_iwalk) (flatten get_jwalk) =
     Inr ([sqrt 2, 1, sqrt 2, 1, 0, 1, sqrt 2, 1, sqrt 2],
          [- 1, 0, 1, - 1, 0, 1, - 1, 0, 1],
          [- 1, - 1, - 1, 0, 0, 0, 1, 1, 1],
          [True, True, True, True, False, True, True, True, True])
   \<and> get_steps [4] (flatten get_iwalk) (flatten get_jwalk) = Inr ([0], [0], [0], [False])"
  by (simp add: get_steps_def flatten_iwalk flatten_jwalk Let_def)

section \<open>Weight surfaces\<close>

lemma fmaximum_zero_div:
  "fmaximum (Fin 0) (fdiv (Fin x) (Fin d)) =
     (if d = 0 then (if x = 0 then NaN else if 0 < x then PInf else Fin 0)
      else Fin (max 0 (x / d)))"
  by (simp add: fmaximum_def max_def)

lemma raw_weight_fmaximum: "raw_weight (fmaximum (Fin 0) (fdiv (Fin x) (Fin d)))"
  by (simp add: fmaximum_zero_div del: fdiv.simps)

text \<open>Every entry of both surfaces is a raw weight, whatever the samples are.\<close>

lemma weight_surfaces_raw:
  "list_all raw_weight (fst (get_weight_sfc_int stage stage_nbrs qx qy ivec jvec distances))
   \<and> list_all raw_weight (snd (get_weight_sfc_int stage stage_nbrs qx qy ivec jvec distances))"
  by (auto simp: get_weight_sfc_int_def Let_def list_all_iff raw_weight_fmaximum
      simp del: fdiv.simps)

text \<open>
  C5, as the code has it. For every direction \<open>k\<close> whose distance is not zero,
  \<open>weight_sfc[k]\<close> is \<open>max(0, (stage - stage_nbrs[k]) / distances[k])\<close> and
  \<open>weight_int[k]\<close> is \<open>max(0, (qx * jvec[k] + qy * ivec[k]) / distances[k])\<close>. No guard
  stands before the division: where the distance is zero the division is carried out,
  and the entry is NaN when the numerator is zero, \<open>+inf\<close> when it is positive and
  \<open>0\<close> when it is negative.
\<close>

theorem weight_surfaces_entries:
  assumes "length stage_nbrs = n" "length ivec = n" "length jvec = n" "length distances = n"
    and "k < n"
  shows "fst (get_weight_sfc_int stage stage_nbrs qx qy ivec jvec distances) ! k =
           (if distances ! k = 0
            then (if stage - stage_nbrs ! k = 0 then NaN
                  else if 0 < stage - stage_nbrs ! k then PInf else Fin 0)
            else Fin (max 0 ((stage - stage_nbrs ! k) / distances ! k)))
         \<and> snd (get_weight_sfc_int stage stage_nbrs qx qy ivec jvec distances) ! k =
           (if distances ! k = 0
            then (if qx * jvec ! k + qy * ivec ! k = 0 then NaN
                  else if 0 < qx * jvec ! k + qy * ivec ! k then PInf else Fin 0)
            else Fin (max 0 ((qx * jvec ! k + qy * ivec ! k) / distances ! k)))"
  using assms by (simp add: get_weight_sfc_int_def Let_def fmaximum_zero_div del: fdiv.simps)

theorem weight_surfaces_entries_witness:
  "length [1, 1, 1, 1, 2, 3, 3, 3, 3 :: real] = 9 \<and> (1 :: nat) < 9
   \<and> fst (get_weight_sfc_int 2 [1, 1, 1, 1, 2, 3, 3, 3, 3] 1 0
          [- 1, 0, 1, - 1, 0, 1, - 1, 0, 1] [- 1, - 1, - 1, 0, 0, 0, 1, 1, 1]
          [sqrt 2, 1, sqrt 2, 1, 0, 1, sqrt 2, 1, sqrt 2]) ! 1 = Fin 1
   \<and> snd (get_weight_sfc_int 2 [1, 1, 1, 1, 2, 3, 3, 3, 3] 1 0
          [- 1, 0, 1, - 1, 0, 1, - 1, 0, 1] [- 1, - 1, - 1, 0, 0, 0, 1, 1, 1]
          [sqrt 2, 1, sqrt 2, 1, 0, 1, sqrt 2, 1, sqrt 2]) ! 1 = Fin 0"
  using weight_surfaces_entries [of "[1, 1, 1, 1, 2, 3, 3, 3, 3]" 9
      "[- 1, 0, 1, - 1, 0, 1, - 1, 0, 1]" "[- 1, - 1, - 1, 0, 0, 0, 1, 1, 1]"
      "[sqrt 2, 1, sqrt 2, 1, 0, 1, sqrt 2, 1, sqrt 2]" 1 2 1 0]
  by simp

text \<open>
  C5, as the claim states it, fails at the self-direction. With the distance table of the
  nine directions, a flat water surface (\<open>stage = stage_nbrs[4]\<close>) and no discharge,
  entry 4 of both surfaces is NaN, the value of \<open>0 / 0\<close>: it is no \<open>max(0, x)\<close> of a
  number, and no guard has kept the zero distance out of the division. With the stage of
  the source above its own sample the entry is \<open>+inf\<close>.
\<close>

theorem self_direction_is_divided_by_zero:
  "fst (get_weight_sfc_int 1 [1, 1, 1, 1, 1, 1, 1, 1, 1] 0 0
          [- 1, 0, 1, - 1, 0, 1, - 1, 0, 1] [- 1, - 1, - 1, 0, 0, 0, 1, 1, 1]
          [sqrt 2, 1, sqrt 2, 1, 0, 1, sqrt 2, 1, sqrt 2]) ! 4 = NaN
   \<and> snd (get_weight_sfc_int 1 [1, 1, 1, 1, 1, 1, 1, 1, 1] 0 0
          [- 1, 0, 1, - 1, 0, 1, - 1, 0, 1] [- 1, - 1, - 1, 0, 0, 0, 1, 1, 1]
          [sqrt 2, 1, sqrt 2, 1, 0, 1, sqrt 2, 1, sqrt 2]) ! 4 = NaN
   \<and> fst (get_weight_sfc_int 2 [1, 1, 1, 1, 1, 1, 1, 1, 1] 0 0
          [- 1, 0, 1, - 1, 0, 1, - 1, 0, 1] [- 1, - 1, - 1, 0, 0, 0, 1, 1, 1]
          [sqrt 2, 1, sqrt 2, 1, 0, 1, sqrt 2, 1, sqrt 2]) ! 4 = PInf"
  by (simp add: get_weight_sfc_int_def fmaximum_def)

section \<open>Weighted sampler\<close>

text \<open>The cumulative sums of finite entries are the sums of the prefixes.\<close>

lemma length_cumsum_from: "length (cumsum_from acc xs) = length xs"
  by (induction xs arbitrary: acc) auto

lemma cumsum_from_Fin_nth:
  "k < length ps \<Longrightarrow> cumsum_from (Fin a) (map Fin ps) ! k = Fin (a + sum_list (take (Suc k) ps))"
proof (induction ps arbitrary: a k)
  case Nil
  then show ?case by simp
next
  case (Cons p ps)
  show ?case
  proof (cases k)
    case 0
    then show ?thesis by simp
  next
    case (Suc j)
    with Cons.prems have "j < length ps" by simp
    from Cons.IH [OF this, of "a + p"] Suc show ?thesis by (simp add: add.assoc)
  qed
qed

lemma cumsum_Fin_nth:
  "k < length ps \<Longrightarrow> cumsum (map Fin ps) ! k = Fin (sum_list (take (Suc k) ps))"
  using cumsum_from_Fin_nth [of k ps 0] by (simp add: cumsum_def)

lemma length_cumsum: "length (cumsum xs) = length xs"
  by (simp add: cumsum_def length_cumsum_from)

lemma bisect_left_bounds:
  "(\<forall>i j. i \<le> j \<and> j < length a \<and> flt (a ! j) v \<longrightarrow> flt (a ! i) v) \<Longrightarrow>
         lo \<le> hi \<Longrightarrow> hi \<le> length a \<Longrightarrow> (\<forall>i<lo. flt (a ! i) v) \<Longrightarrow>
         (\<forall>i. hi \<le> i \<and> i < length a \<longrightarrow> \<not> flt (a ! i) v) \<Longrightarrow>
         bisect_left a v lo hi \<le> length a
         \<and> (\<forall>i<bisect_left a v lo hi. flt (a ! i) v)
         \<and> (\<forall>i. bisect_left a v lo hi \<le> i \<and> i < length a \<longrightarrow> \<not> flt (a ! i) v)"
proof (induction a v lo hi rule: bisect_left.induct)
  case (1 a v lo hi)
  let ?mid = "(lo + hi) div 2"
  show ?case
  proof (cases "lo < hi")
    case False
    then have eq: "bisect_left a v lo hi = lo"
      by (simp add: bisect_left.simps [of a v lo hi])
    from False "1.prems" have "lo = hi" by simp
    with "1.prems" show ?thesis unfolding eq by simp
  next
    case True
    then have mid: "lo \<le> ?mid" "?mid < hi" by auto
    with "1.prems" have midlen: "?mid < length a" by simp
    show ?thesis
    proof (cases "flt (a ! ?mid) v")
      case up: True
      have below: "\<forall>i<Suc ?mid. flt (a ! i) v"
      proof (intro allI impI)
        fix i assume "i < Suc ?mid"
        then have "i \<le> ?mid" by simp
        with "1.prems"(1) midlen up show "flt (a ! i) v" by blast
      qed
      have suc: "Suc ?mid \<le> hi" using mid by simp
      have eq: "bisect_left a v lo hi = bisect_left a v (Suc ?mid) hi"
        using True up by (simp add: bisect_left.simps [of a v lo hi])
      from "1.IH"(1) [OF True up "1.prems"(1) suc "1.prems"(3) below "1.prems"(5)]
      show ?thesis unfolding eq .
    next
      case down: False
      have above: "\<forall>i. ?mid \<le> i \<and> i < length a \<longrightarrow> \<not> flt (a ! i) v"
      proof (intro allI impI notI)
        fix i assume "?mid \<le> i \<and> i < length a" and "flt (a ! i) v"
        with "1.prems"(1) have "flt (a ! ?mid) v" by blast
        with down show False by simp
      qed
      have ml: "?mid \<le> length a" using midlen by simp
      have eq: "bisect_left a v lo hi = bisect_left a v lo ?mid"
        using True down by (simp add: bisect_left.simps [of a v lo hi])
      from "1.IH"(2) [OF True down "1.prems"(1) mid(1) ml "1.prems"(4) above]
      show ?thesis unfolding eq .
    qed
  qed
qed


lemma sum_take_mono:
  fixes ps :: "real list"
  assumes "\<forall>x\<in>set ps. 0 \<le> x" "i \<le> j"
  shows "sum_list (take (Suc i) ps) \<le> sum_list (take (Suc j) ps)"
proof -
  have split: "take (Suc j) ps = take (Suc i) ps @ take (j - i) (drop (Suc i) ps)"
    using assms(2) by (simp add: take_add [symmetric])
  have "\<forall>x\<in>set (take (j - i) (drop (Suc i) ps)). 0 \<le> x"
    using assms(1) by (meson in_set_dropD in_set_takeD)
  then have "0 \<le> sum_list (take (j - i) (drop (Suc i) ps))"
    by (simp add: sum_list_nonneg)
  with split show ?thesis by simp
qed

lemma searchsorted_cumsum:
  fixes ps :: "real list"
  assumes nonneg: "\<forall>x\<in>set ps. 0 \<le> x"
  shows "searchsorted (cumsum (map Fin ps)) (Fin u) \<le> length ps
         \<and> (\<forall>i<searchsorted (cumsum (map Fin ps)) (Fin u). sum_list (take (Suc i) ps) < u)
         \<and> (\<forall>i. searchsorted (cumsum (map Fin ps)) (Fin u) \<le> i \<and> i < length ps
                \<longrightarrow> u \<le> sum_list (take (Suc i) ps))"
proof -
  let ?a = "cumsum (map Fin ps)"
  have len: "length ?a = length ps" by (simp add: length_cumsum)
  have nth: "\<And>i. i < length ps \<Longrightarrow> flt (?a ! i) (Fin u) = (sum_list (take (Suc i) ps) < u)"
    by (simp add: cumsum_Fin_nth)
  have mono: "\<forall>i j. i \<le> j \<and> j < length ?a \<and> flt (?a ! j) (Fin u) \<longrightarrow> flt (?a ! i) (Fin u)"
  proof (intro allI impI)
    fix i j assume h: "i \<le> j \<and> j < length ?a \<and> flt (?a ! j) (Fin u)"
    then have "sum_list (take (Suc j) ps) < u" using nth [of j] len by simp
    moreover have "sum_list (take (Suc i) ps) \<le> sum_list (take (Suc j) ps)"
      using sum_take_mono [OF nonneg] h by simp
    ultimately show "flt (?a ! i) (Fin u)" using nth [of i] h len by simp
  qed
  have "bisect_left ?a (Fin u) 0 (length ?a) \<le> length ?a
        \<and> (\<forall>i<bisect_left ?a (Fin u) 0 (length ?a). flt (?a ! i) (Fin u))
        \<and> (\<forall>i. bisect_left ?a (Fin u) 0 (length ?a) \<le> i \<and> i < length ?a
               \<longrightarrow> \<not> flt (?a ! i) (Fin u))"
    by (rule bisect_left_bounds [OF mono]) auto
  then show ?thesis
    unfolding searchsorted_def [symmetric] using nth len by (auto simp: not_less)
qed

lemma random_pick_unfold:
  "random_pick prob g =
     (if searchsorted (cumsum prob) (Fin (draws g (pos g))) < length prob
      then Inr (searchsorted (cumsum prob) (Fin (draws g (pos g))))
      else Inl IndexError, g\<lparr>pos := Suc (pos g)\<rparr>)"
  by (simp add: random_pick_def get_random_uniform_def)

text \<open>
  C6, as the code has it. Every call of \<open>random_pick\<close> draws once: the stream it
  leaves behind is the one it got, one position further, whatever the vector is. On a
  vector of finite entries that are not negative (so that the cumulative sums ascend, as
  the bisection needs), when some cumulative sum reaches the drawn value \<open>u\<close> the call
  returns the smallest index \<open>k\<close> with \<open>u \<le> prob[0] + ... + prob[k]\<close>; when none
  does, the bisection answers \<open>len(prob)\<close> and the lookup is outside the array.
\<close>

theorem random_pick_smallest_index:
  fixes ps :: "real list"
  shows "snd (random_pick prob g) = g\<lparr>pos := Suc (pos g)\<rparr>
         \<and> (list_all (\<lambda>x. 0 \<le> x) ps \<and> i < length ps
              \<and> draws g (pos g) \<le> sum_list (take (Suc i) ps)
            \<longrightarrow> fst (random_pick (map Fin ps) g) =
                  Inr (LEAST k. draws g (pos g) \<le> sum_list (take (Suc k) ps)))
         \<and> (list_all (\<lambda>x. 0 \<le> x) ps
              \<and> list_all (\<lambda>k. sum_list (take (Suc k) ps) < draws g (pos g)) [0..<length ps]
            \<longrightarrow> fst (random_pick (map Fin ps) g) = Inl IndexError)"
proof (intro conjI impI)
  show "snd (random_pick prob g) = g\<lparr>pos := Suc (pos g)\<rparr>"
    by (simp add: random_pick_unfold)
next
  let ?u = "draws g (pos g)"
  let ?r = "searchsorted (cumsum (map Fin ps)) (Fin ?u)"
  assume h: "list_all (\<lambda>x. 0 \<le> x) ps \<and> i < length ps \<and> ?u \<le> sum_list (take (Suc i) ps)"
  then have nn: "\<forall>x\<in>set ps. 0 \<le> x" by (simp add: list_all_iff)
  from h have reach: "i < length ps" "?u \<le> sum_list (take (Suc i) ps)" by simp_all
  from searchsorted_cumsum [OF nn, of ?u]
  have below: "\<forall>k<?r. sum_list (take (Suc k) ps) < ?u"
    and above: "\<forall>k. ?r \<le> k \<and> k < length ps \<longrightarrow> ?u \<le> sum_list (take (Suc k) ps)"
    and le: "?r \<le> length ps" by blast+
  have "?r \<le> i"
  proof (rule ccontr)
    assume "\<not> ?r \<le> i"
    then have "i < ?r" by simp
    with below reach(2) show False by force
  qed
  with reach(1) have lt: "?r < length ps" by simp
  with above have at: "?u \<le> sum_list (take (Suc ?r) ps)" by simp
  have "(LEAST k. ?u \<le> sum_list (take (Suc k) ps)) = ?r"
  proof (rule Least_equality)
    show "?u \<le> sum_list (take (Suc ?r) ps)" by (rule at)
  next
    fix y assume y: "?u \<le> sum_list (take (Suc y) ps)"
    show "?r \<le> y"
    proof (rule ccontr)
      assume "\<not> ?r \<le> y"
      then have "y < ?r" by simp
      with below y show False by force
    qed
  qed
  with lt show "fst (random_pick (map Fin ps) g) =
      Inr (LEAST k. ?u \<le> sum_list (take (Suc k) ps))"
    by (simp add: random_pick_unfold)
next
  let ?u = "draws g (pos g)"
  let ?r = "searchsorted (cumsum (map Fin ps)) (Fin ?u)"
  assume h: "list_all (\<lambda>x. 0 \<le> x) ps
    \<and> list_all (\<lambda>k. sum_list (take (Suc k) ps) < ?u) [0..<length ps]"
  then have nn: "\<forall>x\<in>set ps. 0 \<le> x" by (simp add: list_all_iff)
  from h have none: "\<forall>k<length ps. sum_list (take (Suc k) ps) < ?u"
    by (simp add: list_all_iff)
  from searchsorted_cumsum [OF nn, of ?u]
  have above: "\<forall>k. ?r \<le> k \<and> k < length ps \<longrightarrow> ?u \<le> sum_list (take (Suc k) ps)"
    by blast
  have "\<not> ?r < length ps"
  proof
    assume lt: "?r < length ps"
    with above have "?u \<le> sum_list (take (Suc ?r) ps)" by simp
    moreover from none lt have "sum_list (take (Suc ?r) ps) < ?u" by simp
    ultimately show False by simp
  qed
  then show "fst (random_pick (map Fin ps) g) = Inl IndexError"
    by (simp add: random_pick_unfold)
qed

theorem random_pick_smallest_index_witness:
  "snd (random_pick (map Fin [1 / 2, 1 / 2, 0, 0, 0, 0, 0, 0, 0])
          \<lparr>draws = \<lambda>n. 3 / 4, pos = 0\<rparr>) = \<lparr>draws = \<lambda>n. 3 / 4, pos = 1\<rparr>
   \<and> list_all (\<lambda>x. 0 \<le> x) [1 / 2, 1 / 2, 0, 0, 0, 0, 0, 0, 0 :: real]
   \<and> (1 :: nat) < length [1 / 2, 1 / 2, 0, 0, 0, 0, 0, 0, 0 :: real]
   \<and> (3 / 4 :: real) \<le> sum_list (take (Suc 1) [1 / 2, 1 / 2, 0, 0, 0, 0, 0, 0, 0])
   \<and> fst (random_pick (map Fin [1 / 2, 1 / 2, 0, 0, 0, 0, 0, 0, 0])
          \<lparr>draws = \<lambda>n. 3 / 4, pos = 0\<rparr>) =
       Inr (LEAST k. (3 / 4 :: real)
              \<le> sum_list (take (Suc k) [1 / 2, 1 / 2, 0, 0, 0, 0, 0, 0, 0]))
   \<and> (LEAST k. (3 / 4 :: real)
          \<le> sum_list (take (Suc k) [1 / 2, 1 / 2, 0, 0, 0, 0, 0, 0, 0])) = 1"
proof -
  have least: "(LEAST k. (3 / 4 :: real)
      \<le> sum_list (take (Suc k) [1 / 2, 1 / 2, 0, 0, 0, 0, 0, 0, 0])) = 1"
  proof (rule Least_equality)
    show "(3 / 4 :: real) \<le> sum_list (take (Suc 1) [1 / 2, 1 / 2, 0, 0, 0, 0, 0, 0, 0])"
      by simp
  next
    fix y :: nat
    assume "(3 / 4 :: real) \<le> sum_list (take (Suc y) [1 / 2, 1 / 2, 0, 0, 0, 0, 0, 0, 0])"
    then show "1 \<le> y" by (cases y) simp_all
  qed
  show ?thesis
    using random_pick_smallest_index
      [of "map Fin [1 / 2, 1 / 2, 0, 0, 0, 0, 0, 0, 0]" "\<lparr>draws = \<lambda>n. 3 / 4, pos = 0\<rparr>"
        "[1 / 2, 1 / 2, 0, 0, 0, 0, 0, 0, 0]" 1] least
    by simp
qed

text \<open>
  C6, as the claim states it, fails where no smallest index exists or where the
  bisection misses it. On the all-zero vector (what \<open>get_weight_at_cell\<close> returns when
  every direction is a wall) with the draw \<open>1/2\<close>, no cumulative sum reaches the draw:
  the call draws once and raises \<open>IndexError\<close>. On \<open>[1, -1, 0, ...]\<close> the cumulative
  sums \<open>[1, 0, 0, ...]\<close> do not ascend: index \<open>0\<close> has a cumulative sum above the
  draw, and the call raises all the same.
\<close>

theorem random_pick_without_index:
  "random_pick [Fin 0, Fin 0, Fin 0, Fin 0, Fin 0, Fin 0, Fin 0, Fin 0, Fin 0]
     \<lparr>draws = \<lambda>n. 1 / 2, pos = 0\<rparr> = (Inl IndexError, \<lparr>draws = \<lambda>n. 1 / 2, pos = 1\<rparr>)
   \<and> random_pick [Fin 1, Fin (- 1), Fin 0, Fin 0, Fin 0, Fin 0, Fin 0, Fin 0, Fin 0]
     \<lparr>draws = \<lambda>n. 1 / 2, pos = 0\<rparr> = (Inl IndexError, \<lparr>draws = \<lambda>n. 1 / 2, pos = 1\<rparr>)
   \<and> cumsum [Fin 1, Fin (- 1), Fin 0, Fin 0, Fin 0, Fin 0, Fin 0, Fin 0, Fin 0] ! 0 = Fin 1"
  by (simp add: random_pick_unfold searchsorted_def cumsum_def bisect_left.simps)

text \<open>
  C10. On a vector of nine finite entries that are not negative and sum to at least
  \<open>1\<close>, and with a drawn value below \<open>1\<close> (as \<open>np.random.uniform(0, 1)\<close> gives it),
  the bisection answers at most \<open>8\<close>, so the lookup in \<open>np.arange(9)\<close> is inside the
  array and \<open>random_pick\<close> returns an index below \<open>9\<close>.
\<close>

theorem random_pick_in_range:
  fixes ps :: "real list"
  assumes len: "length ps = 9"
    and nonneg: "list_all (\<lambda>x. 0 \<le> x) ps"
    and total: "1 \<le> sum_list ps"
    and unif: "draws g (pos g) < 1"
  shows "searchsorted (cumsum (map Fin ps)) (Fin (draws g (pos g))) \<le> 8
         \<and> (\<exists>k<9. fst (random_pick (map Fin ps) g) = Inr k)"
proof -
  let ?u = "draws g (pos g)"
  let ?r = "searchsorted (cumsum (map Fin ps)) (Fin ?u)"
  from nonneg have nn: "\<forall>x\<in>set ps. 0 \<le> x" by (simp add: list_all_iff)
  from searchsorted_cumsum [OF nn, of ?u]
  have below: "\<forall>k<?r. sum_list (take (Suc k) ps) < ?u" and le: "?r \<le> length ps" by blast+
  have "?r \<noteq> 9"
  proof
    assume "?r = 9"
    with below have "(8::nat) < 9 \<longrightarrow> sum_list (take (Suc 8) ps) < ?u" by metis
    then have "sum_list (take (Suc 8) ps) < ?u" by simp
    with len total unif show False by simp
  qed
  with le len have "?r < 9" by simp
  then show ?thesis using len by (auto simp: random_pick_unfold)
qed

theorem random_pick_in_range_witness:
  "length [0, 0, 0, 0, 0, 0, 1 / 4, 1 / 2, 1 / 4 :: real] = 9
   \<and> list_all (\<lambda>x. 0 \<le> x) [0, 0, 0, 0, 0, 0, 1 / 4, 1 / 2, 1 / 4 :: real]
   \<and> (1 :: real) \<le> sum_list [0, 0, 0, 0, 0, 0, 1 / 4, 1 / 2, 1 / 4]
   \<and> draws \<lparr>draws = \<lambda>n. 9 / 10, pos = 0\<rparr> (pos \<lparr>draws = \<lambda>n. 9 / 10 :: real, pos = 0\<rparr>) < 1
   \<and> searchsorted (cumsum (map Fin [0, 0, 0, 0, 0, 0, 1 / 4, 1 / 2, 1 / 4]))
        (Fin (draws \<lparr>draws = \<lambda>n. 9 / 10, pos = 0\<rparr> (pos \<lparr>draws = \<lambda>n. 9 / 10 :: real, pos = 0\<rparr>)))
      \<le> 8
   \<and> (\<exists>k<9. fst (random_pick (map Fin [0, 0, 0, 0, 0, 0, 1 / 4, 1 / 2, 1 / 4])
                  \<lparr>draws = \<lambda>n. 9 / 10, pos = 0\<rparr>) = Inr k)"
  using random_pick_in_range
    [of "[0, 0, 0, 0, 0, 0, 1 / 4, 1 / 2, 1 / 4]" "\<lparr>draws = \<lambda>n. 9 / 10, pos = 0\<rparr>"]
  by simp

section \<open>Weight at a cell\<close>

text \<open>
  The sum of raw weights: \<open>+inf\<close> as soon as one entry is, and the sum of the finite
  entries otherwise (NaN counts as zero).
\<close>

lemma raw_weight_cases: "raw_weight x \<Longrightarrow> x = NaN \<or> x = PInf \<or> (\<exists>r\<ge>0. x = Fin r)"
  by (cases x) auto

lemma nonneg_or_nan_cases: "nonneg_or_nan x \<Longrightarrow> x = NaN \<or> (\<exists>r\<ge>0. x = Fin r)"
  by (cases x) auto

lemma foldl_fadd_PInf:
  "list_all raw_weight xs \<Longrightarrow> NaN \<notin> set xs \<Longrightarrow> foldl fadd PInf xs = PInf"
proof (induction xs)
  case Nil
  then show ?case by simp
next
  case (Cons x xs)
  then have "fadd PInf x = PInf" by (cases x) auto
  with Cons show ?case by simp
qed

lemma foldl_fadd_Fin:
  "list_all raw_weight xs \<Longrightarrow> NaN \<notin> set xs \<Longrightarrow>
   foldl fadd (Fin a) xs = (if PInf \<in> set xs then PInf else Fin (a + sum_list (map fin_val xs)))"
proof (induction xs arbitrary: a)
  case Nil
  then show ?case by simp
next
  case (Cons x xs)
  show ?case
  proof (cases x)
    case NaN
    with Cons.prems show ?thesis by simp
  next
    case PInf
    with Cons.prems show ?thesis by (simp add: foldl_fadd_PInf)
  next
    case NInf
    with Cons.prems show ?thesis by simp
  next
    case (Fin r)
    with Cons.prems Cons.IH [of "a + r"] show ?thesis by (simp add: add.assoc)
  qed
qed

lemma nansum_raw:
  assumes "list_all raw_weight w"
  shows "nansum w = (if PInf \<in> set w then PInf else Fin (sum_list (map fin_val w)))"
proof -
  let ?z = "map (\<lambda>x. if isnan x then Fin 0 else x) w"
  have a: "list_all raw_weight ?z"
    using assms by (induction w) auto
  have b: "NaN \<notin> set ?z"
    by (induction w) auto
  have c: "(PInf \<in> set ?z) = (PInf \<in> set w)"
    by (induction w) auto
  have d: "sum_list (map fin_val ?z) = sum_list (map fin_val w)"
  proof (induction w)
    case Nil
    show ?case by simp
  next
    case (Cons x xs)
    then show ?case by (cases x) auto
  qed
  show ?thesis
    unfolding nansum_def fsum_def using foldl_fadd_Fin [OF a b, of 0] c d by simp
qed

lemma sum_fin_val_nonneg: "list_all raw_weight w \<Longrightarrow> 0 \<le> sum_list (map fin_val w)"
proof (induction w)
  case Nil
  show ?case by simp
next
  case (Cons x xs)
  then show ?case by (cases x) auto
qed

lemma nonneg_imp_raw: "nonneg_or_nan x \<Longrightarrow> raw_weight x"
  by (cases x) auto

lemma length_normalize_surface: "length (normalize_surface w) = length w"
  by (simp add: normalize_surface_def)

lemma normalize_nan: "k < length w \<Longrightarrow> w ! k = NaN \<Longrightarrow> normalize_surface w ! k = NaN"
  by (simp add: normalize_surface_def)

lemma normalize_nonneg:
  assumes "list_all raw_weight w"
  shows "list_all nonneg_or_nan (normalize_surface w)"
proof (cases "PInf \<in> set w")
  case True
  then have s: "nansum w = PInf" using nansum_raw [OF assms] by simp
  have "\<And>x. raw_weight x \<Longrightarrow> nonneg_or_nan (fdiv x PInf)"
    subgoal for x by (cases x) auto
    done
  with assms show ?thesis
    by (simp add: normalize_surface_def s list_all_iff)
next
  case False
  let ?s = "sum_list (map fin_val w)"
  from False have s: "nansum w = Fin ?s" using nansum_raw [OF assms] by simp
  have pos: "0 \<le> ?s" by (rule sum_fin_val_nonneg [OF assms])
  have el: "\<And>x. x \<in> set w \<Longrightarrow> nonneg_or_nan x"
    subgoal for x using assms False by (cases x) (auto simp: list_all_iff)
    done
  show ?thesis
  proof (cases "0 < ?s")
    case True
    have "\<And>x. nonneg_or_nan x \<Longrightarrow> nonneg_or_nan (fdiv x (Fin ?s))"
      subgoal for x using True by (cases x) auto
      done
    with el True show ?thesis by (simp add: normalize_surface_def s list_all_iff)
  next
    case False
    with el show ?thesis by (simp add: normalize_surface_def s list_all_iff)
  qed
qed


lemma length_mask_set: "length (mask_set bs v a) = min (length bs) (length a)"
  by (simp add: mask_set_def)

lemma mask_set_nth:
  "k < length bs \<Longrightarrow> k < length a \<Longrightarrow> mask_set bs v a ! k = (if bs ! k then v else a ! k)"
  by (simp add: mask_set_def)

lemma mask_set_map: "mask_set (map p w) v (map f w) = map (\<lambda>x. if p x then v else f x) w"
  by (induction w) (auto simp: mask_set_def)

lemma length_first_row: "length (first_row ind w) = length w"
  by (auto simp: first_row_def)

lemma first_row_nth:
  "k < length w \<Longrightarrow> first_row ind w ! k = (if fst ind = 0 \<and> k < 3 then NaN else w ! k)"
  by (auto simp: first_row_def nth_append)

lemma length_drywall:
  "length (drywall depth_nbrs ct_nbrs dry_depth) = min (length depth_nbrs) (length ct_nbrs)"
  by (simp add: drywall_def)

lemma drywall_nth:
  "k < length depth_nbrs \<Longrightarrow> k < length ct_nbrs \<Longrightarrow>
   drywall depth_nbrs ct_nbrs dry_depth ! k = (depth_nbrs ! k \<le> dry_depth \<or> ct_nbrs ! k = - 2)"
  by (simp add: drywall_def)

lemma masked_raw:
  assumes "list_all raw_weight w" "length w = n" "length bs = n"
  shows "list_all raw_weight (mask_set bs NaN (first_row ind w))"
  using assms
  by (simp add: list_all_length length_mask_set length_first_row mask_set_nth first_row_nth)

lemma blend_nonneg:
  assumes "nonneg_or_nan a" "nonneg_or_nan b" "0 \<le> gamma" "gamma \<le> 1"
  shows "nonneg_or_nan (fadd (fmul (Fin gamma) a) (fmul (Fin (1 - gamma)) b))"
  using assms by (cases a; cases b) auto

lemma blend_nan:
  "a = NaN \<or> b = NaN \<Longrightarrow> fadd (fmul (Fin gamma) a) (fmul (Fin (1 - gamma)) b) = NaN"
  by (cases a; cases b) auto

lemma modulate_nonneg:
  assumes "nonneg_or_nan x" "0 < d"
  shows "nonneg_or_nan (fmul (fpow d theta) x)"
  using assms by (cases x) (auto simp: fpow_def)

lemma modulate_nan: "0 < d \<Longrightarrow> fmul (fpow d theta) NaN = NaN"
  by (simp add: fpow_def)


lemma length_blended_weight:
  assumes "length weight_sfc = n" "length weight_int = n" "length depth_nbrs = n"
    "length ct_nbrs = n"
  shows "length (blended_weight ind weight_sfc weight_int depth_nbrs ct_nbrs dry_depth gamma theta) = n"
  using assms
  by (simp add: blended_weight_def Let_def length_mask_set length_normalize_surface length_first_row
      length_drywall)

lemma blended_weight_nth:
  assumes "length weight_sfc = n" "length weight_int = n" "length depth_nbrs = n"
    "length ct_nbrs = n" "k < n"
  shows "blended_weight ind weight_sfc weight_int depth_nbrs ct_nbrs dry_depth gamma theta ! k =
    (if depth_nbrs ! k \<le> dry_depth then Fin 0
     else fmul (fpow (depth_nbrs ! k) theta)
       (fadd
         (fmul (Fin gamma)
           (normalize_surface (mask_set (drywall depth_nbrs ct_nbrs dry_depth) NaN
              (first_row ind weight_sfc)) ! k))
         (fmul (Fin (1 - gamma))
           (normalize_surface (mask_set (drywall depth_nbrs ct_nbrs dry_depth) NaN
              (first_row ind weight_int)) ! k))))"
  using assms
  by (simp add: blended_weight_def Let_def length_mask_set length_normalize_surface length_first_row
      length_drywall mask_set_nth)

lemma blended_weight_nonneg:
  assumes lens: "length weight_sfc = n" "length weight_int = n" "length depth_nbrs = n"
    "length ct_nbrs = n"
    and raw: "list_all raw_weight weight_sfc" "list_all raw_weight weight_int"
    and gam: "0 \<le> gamma" "gamma \<le> 1"
    and dry: "0 \<le> dry_depth"
  shows "list_all nonneg_or_nan
    (blended_weight ind weight_sfc weight_int depth_nbrs ct_nbrs dry_depth gamma theta)"
proof -
  let ?dw = "drywall depth_nbrs ct_nbrs dry_depth"
  let ?s = "normalize_surface (mask_set ?dw NaN (first_row ind weight_sfc))"
  let ?i = "normalize_surface (mask_set ?dw NaN (first_row ind weight_int))"
  have dwl: "length ?dw = n" using lens by (simp add: length_drywall)
  have s: "list_all nonneg_or_nan ?s"
    by (rule normalize_nonneg [OF masked_raw [OF raw(1) lens(1) dwl]])
  have i: "list_all nonneg_or_nan ?i"
    by (rule normalize_nonneg [OF masked_raw [OF raw(2) lens(2) dwl]])
  have sl: "length ?s = n" "length ?i = n"
    using lens dwl by (simp_all add: length_normalize_surface length_mask_set length_first_row)
  show ?thesis
    unfolding list_all_length length_blended_weight [OF lens]
  proof (intro allI impI)
    fix k assume k: "k < n"
    have a: "nonneg_or_nan (?s ! k)" "nonneg_or_nan (?i ! k)"
      using s i sl k by (simp_all add: list_all_length)
    show "nonneg_or_nan
      (blended_weight ind weight_sfc weight_int depth_nbrs ct_nbrs dry_depth gamma theta ! k)"
    proof (cases "depth_nbrs ! k \<le> dry_depth")
      case True
      then show ?thesis by (simp add: blended_weight_nth [OF lens k])
    next
      case False
      with dry have "0 < depth_nbrs ! k" by simp
      from modulate_nonneg [OF blend_nonneg [OF a gam] this] False
      show ?thesis by (simp add: blended_weight_nth [OF lens k])
    qed
  qed
qed

lemma blended_weight_invalid:
  assumes lens: "length weight_sfc = n" "length weight_int = n" "length depth_nbrs = n"
    "length ct_nbrs = n"
    and dry: "0 \<le> dry_depth"
    and k: "k < n"
    and inv: "(fst ind = 0 \<and> k < 3) \<or> depth_nbrs ! k \<le> dry_depth \<or> ct_nbrs ! k = - 2"
  shows "blended_weight ind weight_sfc weight_int depth_nbrs ct_nbrs dry_depth gamma theta ! k =
           (if depth_nbrs ! k \<le> dry_depth then Fin 0 else NaN)"
proof (cases "depth_nbrs ! k \<le> dry_depth")
  case True
  then show ?thesis by (simp add: blended_weight_nth [OF lens k])
next
  case False
  let ?dw = "drywall depth_nbrs ct_nbrs dry_depth"
  let ?m = "mask_set ?dw NaN (first_row ind weight_sfc)"
  have dwl: "length ?dw = n" using lens by (simp add: length_drywall)
  have ml: "k < length ?m" using lens dwl k by (simp add: length_mask_set length_first_row)
  have "?m ! k = NaN"
    using inv False lens dwl k
    by (auto simp: mask_set_nth length_first_row first_row_nth drywall_nth)
  then have "normalize_surface ?m ! k = NaN" by (rule normalize_nan [OF ml])
  moreover from False dry have "0 < depth_nbrs ! k" by simp
  ultimately show ?thesis
    using False by (simp add: blended_weight_nth [OF lens k] blend_nan modulate_nan)
qed


lemma sum_list_pos:
  fixes xs :: "real list"
  assumes "\<forall>x\<in>set xs. 0 \<le> x" "y \<in> set xs" "0 < y"
  shows "0 < sum_list xs"
  using assms
proof (induction xs)
  case Nil
  then show ?case by simp
next
  case (Cons x xs)
  then have "0 \<le> sum_list xs" by (simp add: sum_list_nonneg)
  with Cons show ?case by (cases "y = x") (auto intro: add_pos_nonneg add_nonneg_pos)
qed

lemma sum_list_map_divide:
  fixes f :: "'a \<Rightarrow> real"
  shows "sum_list (map (\<lambda>x. f x / s) xs) = sum_list (map f xs) / s"
  by (induction xs) (simp_all add: add_divide_distrib)

lemma resolve_weight_normalizes:
  assumes nn: "list_all nonneg_or_nan w"
    and ex: "list_ex (\<lambda>x. \<not> isnan x \<and> x \<noteq> Fin 0) w"
  shows "0 < sum_list (map fin_val w)
         \<and> resolve_weight w = map (\<lambda>x. Fin (fin_val x / sum_list (map fin_val w))) w"
proof -
  let ?s = "sum_list (map fin_val w)"
  have raw: "list_all raw_weight w"
    using nn by (simp add: list_all_iff nonneg_imp_raw)
  have noinf: "PInf \<notin> set w"
  proof
    assume "PInf \<in> set w"
    with nn show False by (force simp: list_all_iff)
  qed
  have s: "nansum w = Fin ?s" using nansum_raw [OF raw] noinf by simp
  from ex obtain x where x: "x \<in> set w" "\<not> isnan x" "x \<noteq> Fin 0"
    by (auto simp: list_ex_iff)
  with nn have "nonneg_or_nan x" by (simp add: list_all_iff)
  with x(2,3) have "0 < fin_val x" by (cases x) auto
  moreover have "\<forall>y\<in>set (map fin_val w). 0 \<le> y"
  proof
    fix y assume "y \<in> set (map fin_val w)"
    then obtain z where "z \<in> set w" "y = fin_val z" by auto
    with nn have "nonneg_or_nan z" by (simp add: list_all_iff)
    with \<open>y = fin_val z\<close> show "0 \<le> y" by (cases z) auto
  qed
  moreover have "fin_val x \<in> set (map fin_val w)" using x(1) by simp
  ultimately have pos: "0 < ?s" by (metis sum_list_pos)
  have el: "\<And>z. z \<in> set w \<Longrightarrow>
      (if isnan z then Fin 0 else fdiv z (Fin ?s)) = Fin (fin_val z / ?s)"
  proof -
    fix z assume "z \<in> set w"
    with nn have "nonneg_or_nan z" by (simp add: list_all_iff)
    then show "(if isnan z then Fin 0 else fdiv z (Fin ?s)) = Fin (fin_val z / ?s)"
      using pos by (cases z) auto
  qed
  have "resolve_weight w = map (\<lambda>z. if isnan z then Fin 0 else fdiv z (Fin ?s)) w"
    using ex by (simp add: resolve_weight_def Let_def s mask_set_map)
  also have "\<dots> = map (\<lambda>z. Fin (fin_val z / ?s)) w"
    using el by simp
  finally show ?thesis using pos by simp
qed

text \<open>
  C3. The inputs are as the kernel produces them: both surfaces hold raw weights (what
  \<open>get_weight_sfc_int\<close> returns), the mixing parameter is in \<open>[0, 1]\<close>, the dry depth
  is not negative, and all arrays have the same length. When the weight before the final
  renormalization has an entry that is neither NaN nor zero (the result is not
  degenerate), the returned vector holds finite numbers that are not negative and sum to
  \<open>1\<close>; every invalid direction (a first-row upstream direction, a dry cell, a wall)
  has weight \<open>0\<close>, so the entries of the other directions alone sum to \<open>1\<close>. Finite
  arithmetic is exact here, so the sum is \<open>1\<close> itself; rounding is not modelled.
\<close>

theorem nondegenerate_weights_sum_to_one:
  assumes lens: "length weight_sfc = n" "length weight_int = n" "length depth_nbrs = n"
    "length ct_nbrs = n"
    and raw: "list_all raw_weight weight_sfc" "list_all raw_weight weight_int"
    and gam: "0 \<le> gamma" "gamma \<le> 1"
    and dry: "0 \<le> dry_depth"
    and nondeg: "list_ex (\<lambda>x. \<not> isnan x \<and> x \<noteq> Fin 0)
      (blended_weight ind weight_sfc weight_int depth_nbrs ct_nbrs dry_depth gamma theta)"
  shows "\<exists>ws. get_weight_at_cell ind weight_sfc weight_int depth_nbrs ct_nbrs dry_depth gamma theta
                = map Fin ws
           \<and> length ws = n
           \<and> list_all (\<lambda>x. 0 \<le> x) ws
           \<and> sum_list ws = 1
           \<and> (\<forall>k<n. (fst ind = 0 \<and> k < 3) \<or> depth_nbrs ! k \<le> dry_depth \<or> ct_nbrs ! k = - 2
                 \<longrightarrow> ws ! k = 0)
           \<and> (\<Sum>k | k < n \<and> \<not> ((fst ind = 0 \<and> k < 3) \<or> depth_nbrs ! k \<le> dry_depth
                 \<or> ct_nbrs ! k = - 2). ws ! k) = 1"
proof -
  let ?w = "blended_weight ind weight_sfc weight_int depth_nbrs ct_nbrs dry_depth gamma theta"
  let ?s = "sum_list (map fin_val ?w)"
  let ?ws = "map (\<lambda>x. fin_val x / ?s) ?w"
  let ?inv = "\<lambda>k. (fst ind = 0 \<and> k < 3) \<or> depth_nbrs ! k \<le> dry_depth \<or> ct_nbrs ! k = - 2"
  have nn: "list_all nonneg_or_nan ?w"
    by (rule blended_weight_nonneg [OF lens raw gam dry])
  have len: "length ?w = n" by (rule length_blended_weight [OF lens])
  from resolve_weight_normalizes [OF nn nondeg]
  have pos: "0 < ?s" and res: "resolve_weight ?w = map (\<lambda>x. Fin (fin_val x / ?s)) ?w"
    by simp_all
  have eq: "get_weight_at_cell ind weight_sfc weight_int depth_nbrs ct_nbrs dry_depth gamma theta
              = map Fin ?ws"
    by (simp add: get_weight_at_cell_def res)
  have wl: "length ?ws = n" using len by simp
  have nonneg: "list_all (\<lambda>x. 0 \<le> x) ?ws"
    unfolding list_all_length
  proof (intro allI impI)
    fix k assume "k < length ?ws"
    then have k: "k < length ?w" by simp
    with nn have "nonneg_or_nan (?w ! k)" by (simp add: list_all_length)
    then have "0 \<le> fin_val (?w ! k)" by (cases "?w ! k") auto
    with pos k show "0 \<le> ?ws ! k" by simp
  qed
  have total: "sum_list ?ws = 1"
    using pos by (simp add: sum_list_map_divide)
  have zero: "\<forall>k<n. ?inv k \<longrightarrow> ?ws ! k = 0"
  proof (intro allI impI)
    fix k assume k: "k < n" and inv: "?inv k"
    from blended_weight_invalid [OF lens dry k inv]
    have "fin_val (?w ! k) = 0" by (simp split: if_splits)
    with k len show "?ws ! k = 0" by simp
  qed
  have "(\<Sum>k | k < n \<and> \<not> ?inv k. ?ws ! k) = (\<Sum>k<n. ?ws ! k)"
  proof (rule sum.mono_neutral_left)
    show "finite {..<n}" by simp
    show "{k. k < n \<and> \<not> ?inv k} \<subseteq> {..<n}" by auto
    show "\<forall>i\<in>{..<n} - {k. k < n \<and> \<not> ?inv k}. ?ws ! i = 0"
      using zero by auto
  qed
  also have "\<dots> = sum_list ?ws"
    using wl by (simp add: sum_list_sum_nth atLeast0LessThan)
  finally have valid: "(\<Sum>k | k < n \<and> \<not> ?inv k. ?ws ! k) = 1"
    using total by simp
  from eq wl nonneg total zero valid show ?thesis by blast
qed

lemmas weight_defs = get_weight_at_cell_def resolve_weight_def blended_weight_def drywall_def
  normalize_surface_def mask_set_def first_row_def nansum_def fsum_def fpow_def

theorem nondegenerate_weights_sum_to_one_witness:
  "list_all raw_weight [Fin 0, Fin 0, Fin 0, Fin 0, NaN, Fin 0, Fin 1, Fin 2, Fin 1]
   \<and> list_all raw_weight [Fin 0, Fin 0, Fin 0, Fin 0, NaN, Fin 0, Fin 0, Fin 0, Fin 0]
   \<and> list_ex (\<lambda>x. \<not> isnan x \<and> x \<noteq> Fin 0)
        (blended_weight (1, 1)
          [Fin 0, Fin 0, Fin 0, Fin 0, NaN, Fin 0, Fin 1, Fin 2, Fin 1]
          [Fin 0, Fin 0, Fin 0, Fin 0, NaN, Fin 0, Fin 0, Fin 0, Fin 0]
          [0, 0, 0, 1, 1, 1, 1, 1, 1] [0, 0, 0, - 2, 0, 0, 0, 0, 0] (1 / 10) (1 / 2) 1)
   \<and> get_weight_at_cell (1, 1)
        [Fin 0, Fin 0, Fin 0, Fin 0, NaN, Fin 0, Fin 1, Fin 2, Fin 1]
        [Fin 0, Fin 0, Fin 0, Fin 0, NaN, Fin 0, Fin 0, Fin 0, Fin 0]
        [0, 0, 0, 1, 1, 1, 1, 1, 1] [0, 0, 0, - 2, 0, 0, 0, 0, 0] (1 / 10) (1 / 2) 1
      = map Fin [0, 0, 0, 0, 0, 0, 1 / 4, 1 / 2, 1 / 4]
   \<and> sum_list [0, 0, 0, 0, 0, 0, 1 / 4, 1 / 2, 1 / 4 :: real] = 1"
  using nondegenerate_weights_sum_to_one
    [of "[Fin 0, Fin 0, Fin 0, Fin 0, NaN, Fin 0, Fin 1, Fin 2, Fin 1]" 9
      "[Fin 0, Fin 0, Fin 0, Fin 0, NaN, Fin 0, Fin 0, Fin 0, Fin 0]"
      "[0, 0, 0, 1, 1, 1, 1, 1, 1]" "[0, 0, 0, - 2, 0, 0, 0, 0, 0]" "1 / 2" "1 / 10"
      "(1, 1)" 1]
  by (simp add: weight_defs)

subsection \<open>Dry cells in the uniform fallback\<close>

text \<open>
  Line 128 sets the weight of every dry cell to \<open>0\<close>, which also removes its NaN mark.
  When no entry is left that is neither NaN nor zero, line 136 gives one over the number
  of entries that are not NaN to each of them, the dry cells included. The three
  evaluations below are of that one path.
\<close>

text \<open>
  C2. Every neighbour depth is \<open>0\<close>, below the dry depth \<open>0.1\<close>; the raw surfaces are
  positive in the eight moving directions. The returned vector is not the all-zero
  vector: every direction, the self-direction included, has weight \<open>1/9\<close>. The
  all-zero vector is what the same call returns when the nine cells are walls, which
  keep their NaN mark.
\<close>

theorem all_dry_gets_uniform_weights:
  "get_weight_at_cell (1, 1)
     [Fin 1, Fin 1, Fin 1, Fin 1, NaN, Fin 1, Fin 1, Fin 1, Fin 1]
     [Fin 0, Fin 0, Fin 0, Fin 0, NaN, Fin 0, Fin 0, Fin 0, Fin 0]
     [0, 0, 0, 0, 0, 0, 0, 0, 0] [0, 0, 0, 0, 0, 0, 0, 0, 0] (1 / 10) (1 / 2) 1
   = [Fin (1 / 9), Fin (1 / 9), Fin (1 / 9), Fin (1 / 9), Fin (1 / 9), Fin (1 / 9),
      Fin (1 / 9), Fin (1 / 9), Fin (1 / 9)]
   \<and> get_weight_at_cell (1, 1)
     [Fin 1, Fin 1, Fin 1, Fin 1, NaN, Fin 1, Fin 1, Fin 1, Fin 1]
     [Fin 0, Fin 0, Fin 0, Fin 0, NaN, Fin 0, Fin 0, Fin 0, Fin 0]
     [1, 1, 1, 1, 1, 1, 1, 1, 1] [- 2, - 2, - 2, - 2, - 2, - 2, - 2, - 2, - 2]
     (1 / 10) (1 / 2) 1
   = [Fin 0, Fin 0, Fin 0, Fin 0, Fin 0, Fin 0, Fin 0, Fin 0, Fin 0]"
  by (simp add: weight_defs)

text \<open>
  C4. Direction 8 is dry (depth \<open>0\<close>, dry depth \<open>0.1\<close>), the other cells are wet, the
  water surface is flat and there is no discharge, so every raw weight is \<open>0\<close>. The
  fallback branch is taken and the dry direction gets the weight \<open>1/9\<close>, not \<open>0\<close>.
\<close>

theorem dry_direction_gets_fallback_weight:
  "get_weight_at_cell (1, 1)
     [Fin 0, Fin 0, Fin 0, Fin 0, Fin 0, Fin 0, Fin 0, Fin 0, Fin 0]
     [Fin 0, Fin 0, Fin 0, Fin 0, Fin 0, Fin 0, Fin 0, Fin 0, Fin 0]
     [1, 1, 1, 1, 1, 1, 1, 1, 0] [0, 0, 0, 0, 0, 0, 0, 0, 0] (1 / 10) (1 / 2) 1 ! 8
   = Fin (1 / 9)"
  by (simp add: weight_defs)

text \<open>
  C1. Exactly three directions (6, 7, 8) are valid and every raw weight is \<open>0\<close>. When
  the six invalid directions are dry cells, all nine directions get \<open>1/9\<close>; the claim
  asks for \<open>1/3\<close> on the three valid ones and \<open>0\<close> elsewhere. That is what the
  same call returns when the six invalid directions are walls, which keep their NaN
  mark.
\<close>

theorem three_valid_directions_among_dry_cells:
  "get_weight_at_cell (1, 1)
     [Fin 0, Fin 0, Fin 0, Fin 0, Fin 0, Fin 0, Fin 0, Fin 0, Fin 0]
     [Fin 0, Fin 0, Fin 0, Fin 0, Fin 0, Fin 0, Fin 0, Fin 0, Fin 0]
     [0, 0, 0, 0, 0, 0, 1, 1, 1] [0, 0, 0, 0, 0, 0, 0, 0, 0] (1 / 10) (1 / 2) 1
   = [Fin (1 / 9), Fin (1 / 9), Fin (1 / 9), Fin (1 / 9), Fin (1 / 9), Fin (1 / 9),
      Fin (1 / 9), Fin (1 / 9), Fin (1 / 9)]
   \<and> get_weight_at_cell (1, 1)
     [Fin 0, Fin 0, Fin 0, Fin 0, Fin 0, Fin 0, Fin 0, Fin 0, Fin 0]
     [Fin 0, Fin 0, Fin 0, Fin 0, Fin 0, Fin 0, Fin 0, Fin 0, Fin 0]
     [1, 1, 1, 1, 1, 1, 1, 1, 1] [- 2, - 2, - 2, - 2, - 2, - 2, 0, 0, 0] (1 / 10) (1 / 2) 1
   = [Fin 0, Fin 0, Fin 0, Fin 0, Fin 0, Fin 0, Fin (1 / 3), Fin (1 / 3), Fin (1 / 3)]"
  by (simp add: weight_defs)

end
